theory Spec2Isabelle
  imports Main "HOL-Library.Word" "HOL-Library.Sublist" "HOL-Library.AList"
begin

section \<open>JavaScript strings\<close>

text \<open>
  A JavaScript string is a finite sequence of UTF-16 code units, so a string is a list of
  16-bit words. \<open>line[i]\<close> reads one code unit and is \<open>undefined\<close> out of
  range; \<open>===\<close> on strings compares the sequences.
\<close>

type_synonym jschar = "16 word"
type_synonym jsstring = "jschar list"

definition utf16 :: "string \<Rightarrow> jsstring" where
  \<comment> \<open>The code units of a literal written with Basic Latin characters.\<close>
  "utf16 s = map of_char s"

definition dquote :: jschar where "dquote = 0x22"
definition comma :: jschar where "comma = 0x2C"
definition linefeed :: jschar where "linefeed = 0x0A"

definition jsIndex :: "'a list \<Rightarrow> nat \<Rightarrow> 'a option" where
  \<comment> \<open>\<open>xs[i]\<close> for a string or an array: \<open>None\<close> is \<open>undefined\<close>.\<close>
  "jsIndex xs i = (if i < length xs then Some (xs ! i) else None)"

definition isWhiteSpace :: "jschar \<Rightarrow> bool" where
  \<comment> \<open>WhiteSpace and LineTerminator of ECMAScript, the code units that
      \<open>String.prototype.trim\<close> strips.\<close>
  "isWhiteSpace c =
     (c \<in> set [0x0009, 0x000A, 0x000B, 0x000C, 0x000D, 0x0020, 0x00A0, 0x1680,
                0x2000, 0x2001, 0x2002, 0x2003, 0x2004, 0x2005, 0x2006, 0x2007,
                0x2008, 0x2009, 0x200A, 0x2028, 0x2029, 0x202F, 0x205F, 0x3000,
                0xFEFF])"

definition trim :: "jsstring \<Rightarrow> jsstring" where
  "trim s = rev (dropWhile isWhiteSpace (rev (dropWhile isWhiteSpace s)))"

fun split :: "jschar \<Rightarrow> jsstring \<Rightarrow> jsstring list" where
  \<comment> \<open>\<open>s.split(sep)\<close> for a separator of one code unit: never the empty array.\<close>
  "split sep [] = [[]]"
| "split sep (c # cs) =
     (if c = sep then [] # split sep cs
      else (case split sep cs of
              [] \<Rightarrow> [[c]]
            | w # ws \<Rightarrow> (c # w) # ws))"

fun includes_js :: "jsstring \<Rightarrow> jsstring \<Rightarrow> bool" where
  \<comment> \<open>\<open>s.includes(t)\<close>: \<open>t\<close> occurs in \<open>s\<close> as a run of consecutive code units.\<close>
  "includes_js [] t = (t = [])"
| "includes_js (c # s) t = (prefix t (c # s) \<or> includes_js s t)"

definition appendChar :: "jsstring \<Rightarrow> jschar option \<Rightarrow> jsstring" where
  \<comment> \<open>\<open>currentValue += char\<close>; an \<open>undefined\<close> operand is converted to the
      string \<open>"undefined"\<close>.\<close>
  "appendChar s c = (case c of Some ch \<Rightarrow> s @ [ch] | None \<Rightarrow> s @ utf16 ''undefined'')"

section \<open>Splitting one line into fields\<close>

text \<open>
  \<open>parseCSVLine\<close> of the debounced variant. The \<open>for\<close> loop is a recursion on the
  index \<open>i\<close>; \<open>result\<close>, \<open>currentValue\<close> and \<open>inQuotes\<close> are the loop's variables.
\<close>

function parseCSVLine_loop ::
  "jsstring \<Rightarrow> nat \<Rightarrow> jsstring list \<Rightarrow> jsstring \<Rightarrow> bool \<Rightarrow> jsstring list" where
  "parseCSVLine_loop line i result currentValue inQuotes =
     (if i < length line then
        (if jsIndex line i = Some dquote then
           (if inQuotes \<and> jsIndex line (i + 1) = Some dquote
            then parseCSVLine_loop line (i + 1 + 1) result (currentValue @ [dquote]) inQuotes
            else parseCSVLine_loop line (i + 1) result currentValue (\<not> inQuotes))
         else if jsIndex line i = Some comma \<and> \<not> inQuotes
         then parseCSVLine_loop line (i + 1) (result @ [trim currentValue]) [] inQuotes
         else parseCSVLine_loop line (i + 1) result
                (appendChar currentValue (jsIndex line i)) inQuotes)
      else result @ [trim currentValue])"
  by pat_completeness auto
termination
  by (relation "measure (\<lambda>(line, i, result, currentValue, inQuotes). length line - i)") auto

definition parseCSVLine :: "jsstring \<Rightarrow> jsstring list" where
  "parseCSVLine line = parseCSVLine_loop line 0 [] [] False"

text \<open>
  The field-splitting algorithm in the words of the specification: a scan over the
  characters with the state "inside quoted field" and the current-field buffer.
\<close>

fun scan_spec :: "bool \<Rightarrow> jsstring \<Rightarrow> jsstring \<Rightarrow> jsstring list" where
  "scan_spec inside buf [] = [trim buf]"
| "scan_spec inside buf [c] =
     (if c = dquote then scan_spec (\<not> inside) buf []
      else if c = comma \<and> \<not> inside then trim buf # scan_spec inside [] []
      else scan_spec inside (buf @ [c]) [])"
| "scan_spec inside buf (c # n # rest) =
     (if c = dquote then
        (if inside \<and> n = dquote then scan_spec inside (buf @ [dquote]) rest
         else scan_spec (\<not> inside) buf (n # rest))
      else if c = comma \<and> \<not> inside then trim buf # scan_spec inside [] (n # rest)
      else scan_spec inside (buf @ [c]) (n # rest))"

definition fieldSplit_spec :: "jsstring \<Rightarrow> jsstring list" where
  "fieldSplit_spec line = scan_spec False [] line"

section \<open>Objects used as dictionaries\<close>

text \<open>
  A \<open>TableRow\<close> is a plain object \<open>{}\<close> filled by assignments \<open>row[key] = value\<close>.
  It is represented by its own properties in creation order. Three facts of the language
  are part of the model:
  \<^item> assigning to the key \<open>__proto__\<close> of an object that has no own property of that
    name runs the setter inherited from \<open>Object.prototype\<close>, which ignores a string
    and creates no property;
  \<^item> reading a key that is not an own property finds the members of
    \<open>Object.prototype\<close> (functions, and an object for \<open>__proto__\<close>) before it
    yields \<open>undefined\<close>;
  \<^item> \<open>Object.keys\<close> lists the keys that are array indices first, in ascending
    numeric order, and then the other keys in creation order.
\<close>

type_synonym TableRow = "(jsstring \<times> jsstring) list"

datatype jsvalue = Undefined | StringValue jsstring | PrototypeMember

datatype jserror = TypeError

definition protoKey :: jsstring where
  "protoKey = utf16 ''__proto__''"

definition objectPrototypeKeys :: "jsstring list" where
  \<comment> \<open>The property names of \<open>Object.prototype\<close> in a browser.\<close>
  "objectPrototypeKeys = map utf16
     [''constructor'', ''__defineGetter__'', ''__defineSetter__'', ''hasOwnProperty'',
      ''__lookupGetter__'', ''__lookupSetter__'', ''isPrototypeOf'',
      ''propertyIsEnumerable'', ''toString'', ''valueOf'', ''__proto__'',
      ''toLocaleString'']"

definition assignProp :: "TableRow \<Rightarrow> jsstring \<Rightarrow> jsstring \<Rightarrow> TableRow" where
  \<comment> \<open>\<open>row[key] = v\<close> for a string \<open>v\<close>.\<close>
  "assignProp row key v =
     (if key = protoKey \<and> map_of row key = None then row else AList.update key v row)"

definition getProp :: "TableRow \<Rightarrow> jsstring \<Rightarrow> jsvalue" where
  \<comment> \<open>\<open>row[key]\<close>.\<close>
  "getProp row key =
     (case map_of row key of
        Some v \<Rightarrow> StringValue v
      | None \<Rightarrow> if key \<in> set objectPrototypeKeys then PrototypeMember else Undefined)"

definition isDigit :: "jschar \<Rightarrow> bool" where
  "isDigit c = (0x30 \<le> c \<and> c \<le> 0x39)"

definition decimalValue :: "jsstring \<Rightarrow> int" where
  "decimalValue k = foldl (\<lambda>acc c. 10 * acc + (uint c - 48)) 0 k"

definition isArrayIndex :: "jsstring \<Rightarrow> bool" where
  \<comment> \<open>The canonical decimal form of an integer from 0 to \<open>2\<^sup>3\<^sup>2 - 2\<close>.\<close>
  "isArrayIndex k =
     (k \<noteq> [] \<and> list_all isDigit k \<and> (k = [0x30] \<or> hd k \<noteq> 0x30) \<and>
      decimalValue k \<le> 4294967294)"

definition objectEntries :: "TableRow \<Rightarrow> (jsstring \<times> jsstring) list" where
  "objectEntries row =
     sort_key (\<lambda>p. decimalValue (fst p)) (filter (\<lambda>p. isArrayIndex (fst p)) row) @
     filter (\<lambda>p. \<not> isArrayIndex (fst p)) row"

definition objectKeys :: "TableRow \<Rightarrow> jsstring list" where
  "objectKeys row = map fst (objectEntries row)"

definition orEmpty :: "jsstring option \<Rightarrow> jsstring" where
  \<comment> \<open>\<open>v || ''\<close>: \<open>undefined\<close> and the empty string are falsy.\<close>
  "orEmpty v = (case v of None \<Rightarrow> [] | Some s \<Rightarrow> if s = [] then [] else s)"

section \<open>Parsing the text\<close>

text \<open>
  \<open>parseCSV\<close> of the debounced variant. \<open>forEach_headers\<close> is the call
  \<open>headers.forEach((header, index) => { row[header] = values[index] || '' })\<close>;
  \<open>parseCSV_loop\<close> is the \<open>for\<close> loop over the lines from index 1. A method call on
  \<open>undefined\<close> raises \<open>TypeError\<close>.
\<close>

fun forEach_headers :: "jsstring list \<Rightarrow> nat \<Rightarrow> jsstring list \<Rightarrow> TableRow \<Rightarrow> TableRow" where
  "forEach_headers [] index values row = row"
| "forEach_headers (header # rest) index values row =
     forEach_headers rest (index + 1) values
       (assignProp row header (orEmpty (jsIndex values index)))"

function parseCSV_loop ::
  "jsstring list \<Rightarrow> jsstring list \<Rightarrow> nat \<Rightarrow> TableRow list \<Rightarrow> jserror + TableRow list" where
  "parseCSV_loop lines headers i result =
     (if i < length lines then
        (case jsIndex lines i of
           None \<Rightarrow> Inl TypeError
         | Some l \<Rightarrow>
             if trim l = [] then parseCSV_loop lines headers (i + 1) result
             else parseCSV_loop lines headers (i + 1)
                    (result @ [forEach_headers headers 0 (parseCSVLine (trim l)) []]))
      else Inr result)"
  by pat_completeness auto
termination
  by (relation "measure (\<lambda>(lines, headers, i, result). length lines - i)") auto

definition parseCSV :: "jsstring \<Rightarrow> jserror + TableRow list" where
  "parseCSV csvText =
     (let lines = split linefeed csvText in
      if length lines = 0 then Inr []
      else (case jsIndex lines 0 of
              None \<Rightarrow> Inl TypeError
            | Some first \<Rightarrow> parseCSV_loop lines (map trim (split comma first)) 1 []))"

section \<open>Filtering the rows\<close>

text \<open>
  \<open>applyFilters\<close> of the debounced variant. It reads its filter object only through
  \<open>Object.values\<close> and \<open>Object.entries\<close>, so a \<open>ColumnFilter\<close> is represented
  by its entries in the order of that enumeration. \<open>String.prototype.toLowerCase\<close> is
  the Unicode case mapping of the runtime; the functions take it as the parameter
  \<open>lc\<close>, and nothing is assumed about it. \<open>every\<close> stops at the first entry whose
  test is false, and an exception raised by a test leaves the whole call.
\<close>

type_synonym ColumnFilter = "(jsstring \<times> jsstring) list"

definition toLowerCase_call :: "(jsstring \<Rightarrow> jsstring) \<Rightarrow> jsvalue \<Rightarrow> jserror + jsstring option" where
  \<comment> \<open>\<open>v?.toLowerCase()\<close>: \<open>undefined\<close> short-circuits to \<open>undefined\<close>; a value
      without the method raises.\<close>
  "toLowerCase_call lc v =
     (case v of
        Undefined \<Rightarrow> Inr None
      | StringValue s \<Rightarrow> Inr (Some (lc s))
      | PrototypeMember \<Rightarrow> Inl TypeError)"

definition entryTest ::
  "(jsstring \<Rightarrow> jsstring) \<Rightarrow> TableRow \<Rightarrow> jsstring \<times> jsstring \<Rightarrow> jserror + bool" where
  "entryTest lc row entry =
     (case entry of (column, filterValue) \<Rightarrow>
        if trim filterValue = [] then Inr True
        else (case toLowerCase_call lc (getProp row column) of
                Inl e \<Rightarrow> Inl e
              | Inr lowered \<Rightarrow>
                  Inr (includes_js (orEmpty lowered) (trim (lc filterValue)))))"

fun every_js :: "('a \<Rightarrow> jserror + bool) \<Rightarrow> 'a list \<Rightarrow> jserror + bool" where
  "every_js test [] = Inr True"
| "every_js test (x # xs) =
     (case test x of
        Inl e \<Rightarrow> Inl e
      | Inr b \<Rightarrow> if b then every_js test xs else Inr False)"

fun filter_js :: "('a \<Rightarrow> jserror + bool) \<Rightarrow> 'a list \<Rightarrow> jserror + 'a list" where
  "filter_js test [] = Inr []"
| "filter_js test (x # xs) =
     (case test x of
        Inl e \<Rightarrow> Inl e
      | Inr b \<Rightarrow>
          (case filter_js test xs of
             Inl e \<Rightarrow> Inl e
           | Inr ys \<Rightarrow> Inr (if b then x # ys else ys)))"

definition applyFilters ::
  "(jsstring \<Rightarrow> jsstring) \<Rightarrow> ColumnFilter \<Rightarrow> TableRow list \<Rightarrow> jserror + TableRow list" where
  "applyFilters lc filtersToApply dataToFilter =
     (if list_all (\<lambda>val. trim val = []) (map snd filtersToApply) then Inr dataToFilter
      else filter_js (\<lambda>row. every_js (entryTest lc row) filtersToApply) dataToFilter)"

definition toLowerCase_basicLatin :: "jsstring \<Rightarrow> jsstring" where
  \<comment> \<open>\<open>toLowerCase\<close> on strings of Basic Latin code units, where it maps \<open>A\<close> to
      \<open>Z\<close> and nothing else; used for the concrete examples.\<close>
  "toLowerCase_basicLatin s = map (\<lambda>c. if 0x41 \<le> c \<and> c \<le> 0x5A then c + 0x20 else c) s"

text \<open>
  The filter predicate in the words of the specification: the row's value at the column
  (the empty string when the row has no such key), case-folded, contains the case-folded,
  trimmed filter value; entries whose trimmed value is empty impose nothing.
\<close>

definition cellLowered_spec :: "(jsstring \<Rightarrow> jsstring) \<Rightarrow> TableRow \<Rightarrow> jsstring \<Rightarrow> jsstring" where
  "cellLowered_spec lc row column = (case map_of row column of None \<Rightarrow> [] | Some v \<Rightarrow> lc v)"

definition rowMatches_spec :: "(jsstring \<Rightarrow> jsstring) \<Rightarrow> ColumnFilter \<Rightarrow> TableRow \<Rightarrow> bool" where
  "rowMatches_spec lc fs row =
     list_all (\<lambda>(column, filterValue).
                 trim filterValue = [] \<or>
                 includes_js (cellLowered_spec lc row column) (trim (lc filterValue))) fs"

definition filterRows_spec :: "(jsstring \<Rightarrow> jsstring) \<Rightarrow> ColumnFilter \<Rightarrow> TableRow list \<Rightarrow> TableRow list" where
  "filterRows_spec lc fs rows = filter (rowMatches_spec lc fs) rows"

section \<open>The other two variants\<close>

text \<open>
  The multi-column variant and the fifth-column variant carry their own copies of
  \<open>parseCSVLine\<close> and \<open>parseCSV\<close>; each copy is translated from its own text.
\<close>

function parseCSVLine_multi_loop ::
  "jsstring \<Rightarrow> nat \<Rightarrow> jsstring list \<Rightarrow> jsstring \<Rightarrow> bool \<Rightarrow> jsstring list" where
  "parseCSVLine_multi_loop line i result currentValue inQuotes =
     (if i < length line then
        (if jsIndex line i = Some dquote then
           (if inQuotes \<and> jsIndex line (i + 1) = Some dquote
            then parseCSVLine_multi_loop line (i + 1 + 1) result (currentValue @ [dquote])
                   inQuotes
            else parseCSVLine_multi_loop line (i + 1) result currentValue (\<not> inQuotes))
         else if jsIndex line i = Some comma \<and> \<not> inQuotes
         then parseCSVLine_multi_loop line (i + 1) (result @ [trim currentValue]) [] inQuotes
         else parseCSVLine_multi_loop line (i + 1) result
                (appendChar currentValue (jsIndex line i)) inQuotes)
      else result @ [trim currentValue])"
  by pat_completeness auto
termination
  by (relation "measure (\<lambda>(line, i, result, currentValue, inQuotes). length line - i)") auto

definition parseCSVLine_multi :: "jsstring \<Rightarrow> jsstring list" where
  "parseCSVLine_multi line = parseCSVLine_multi_loop line 0 [] [] False"

fun forEach_headers_multi ::
  "jsstring list \<Rightarrow> nat \<Rightarrow> jsstring list \<Rightarrow> TableRow \<Rightarrow> TableRow" where
  "forEach_headers_multi [] index values row = row"
| "forEach_headers_multi (header # rest) index values row =
     forEach_headers_multi rest (index + 1) values
       (assignProp row header (orEmpty (jsIndex values index)))"

function parseCSV_multi_loop ::
  "jsstring list \<Rightarrow> jsstring list \<Rightarrow> nat \<Rightarrow> TableRow list \<Rightarrow> jserror + TableRow list" where
  "parseCSV_multi_loop lines headers i result =
     (if i < length lines then
        (case jsIndex lines i of
           None \<Rightarrow> Inl TypeError
         | Some l \<Rightarrow>
             if trim l = [] then parseCSV_multi_loop lines headers (i + 1) result
             else parseCSV_multi_loop lines headers (i + 1)
                    (result @ [forEach_headers_multi headers 0 (parseCSVLine_multi (trim l)) []]))
      else Inr result)"
  by pat_completeness auto
termination
  by (relation "measure (\<lambda>(lines, headers, i, result). length lines - i)") auto

definition parseCSV_multi :: "jsstring \<Rightarrow> jserror + TableRow list" where
  "parseCSV_multi csvText =
     (let lines = split linefeed csvText in
      if length lines = 0 then Inr []
      else (case jsIndex lines 0 of
              None \<Rightarrow> Inl TypeError
            | Some first \<Rightarrow> parseCSV_multi_loop lines (map trim (split comma first)) 1 []))"

function parseCSVLine_fifth_loop ::
  "jsstring \<Rightarrow> nat \<Rightarrow> jsstring list \<Rightarrow> jsstring \<Rightarrow> bool \<Rightarrow> jsstring list" where
  "parseCSVLine_fifth_loop line i result currentValue inQuotes =
     (if i < length line then
        (if jsIndex line i = Some dquote then
           (if inQuotes \<and> jsIndex line (i + 1) = Some dquote
            then parseCSVLine_fifth_loop line (i + 1 + 1) result (currentValue @ [dquote])
                   inQuotes
            else parseCSVLine_fifth_loop line (i + 1) result currentValue (\<not> inQuotes))
         else if jsIndex line i = Some comma \<and> \<not> inQuotes
         then parseCSVLine_fifth_loop line (i + 1) (result @ [trim currentValue]) [] inQuotes
         else parseCSVLine_fifth_loop line (i + 1) result
                (appendChar currentValue (jsIndex line i)) inQuotes)
      else result @ [trim currentValue])"
  by pat_completeness auto
termination
  by (relation "measure (\<lambda>(line, i, result, currentValue, inQuotes). length line - i)") auto

definition parseCSVLine_fifth :: "jsstring \<Rightarrow> jsstring list" where
  "parseCSVLine_fifth line = parseCSVLine_fifth_loop line 0 [] [] False"

fun forEach_headers_fifth ::
  "jsstring list \<Rightarrow> nat \<Rightarrow> jsstring list \<Rightarrow> TableRow \<Rightarrow> TableRow" where
  "forEach_headers_fifth [] index values row = row"
| "forEach_headers_fifth (header # rest) index values row =
     forEach_headers_fifth rest (index + 1) values
       (assignProp row header (orEmpty (jsIndex values index)))"

function parseCSV_fifth_loop ::
  "jsstring list \<Rightarrow> jsstring list \<Rightarrow> nat \<Rightarrow> TableRow list \<Rightarrow> jserror + TableRow list" where
  "parseCSV_fifth_loop lines headers i result =
     (if i < length lines then
        (case jsIndex lines i of
           None \<Rightarrow> Inl TypeError
         | Some l \<Rightarrow>
             if trim l = [] then parseCSV_fifth_loop lines headers (i + 1) result
             else parseCSV_fifth_loop lines headers (i + 1)
                    (result @ [forEach_headers_fifth headers 0 (parseCSVLine_fifth (trim l)) []]))
      else Inr result)"
  by pat_completeness auto
termination
  by (relation "measure (\<lambda>(lines, headers, i, result). length lines - i)") auto

definition parseCSV_fifth :: "jsstring \<Rightarrow> jserror + TableRow list" where
  "parseCSV_fifth csvText =
     (let lines = split linefeed csvText in
      if length lines = 0 then Inr []
      else (case jsIndex lines 0 of
              None \<Rightarrow> Inl TypeError
            | Some first \<Rightarrow> parseCSV_fifth_loop lines (map trim (split comma first)) 1 []))"

section \<open>The state of the view\<close>

text \<open>
  The part of the component state that the loader, the filter pass and the row limit
  read and write. \<open>loadCSVData\<close> is the loader after a successful fetch; an exception
  is caught there and leaves these fields as they were. \<open>filterEffect\<close> is the filter
  pass of the debounced variant once the delay has passed.
\<close>

record AppState =
  data :: "TableRow list"
  filteredData :: "TableRow list"
  filters :: ColumnFilter
  headers :: "jsstring list"
  rowsToDisplay :: int

definition initialState :: AppState where
  "initialState =
     \<lparr>data = [], filteredData = [], filters = [], headers = [], rowsToDisplay = 100\<rparr>"

definition initialFilters :: "jsstring list \<Rightarrow> ColumnFilter" where
  \<comment> \<open>\<open>initialFilters[header] = ''\<close> for each key, then enumerated.\<close>
  "initialFilters keys = objectEntries (foldl (\<lambda>obj header. assignProp obj header []) [] keys)"

definition loadCSVData :: "jsstring \<Rightarrow> AppState \<Rightarrow> AppState" where
  "loadCSVData csvText st =
     (case parseCSV csvText of
        Inl e \<Rightarrow> st
      | Inr parsedData \<Rightarrow>
          if length parsedData > 0 then
            (case jsIndex parsedData 0 of
               None \<Rightarrow> st
             | Some first \<Rightarrow>
                 st\<lparr>headers := objectKeys first, data := parsedData,
                    filters := initialFilters (objectKeys first)\<rparr>)
          else st)"

definition filterEffect :: "(jsstring \<Rightarrow> jsstring) \<Rightarrow> AppState \<Rightarrow> AppState" where
  "filterEffect lc st =
     (if length (data st) = 0 then st
      else (case applyFilters lc (filters st) (data st) of
              Inl e \<Rightarrow> st
            | Inr filtered \<Rightarrow> st\<lparr>filteredData := filtered\<rparr>))"

definition handleRowsToDisplayChange :: "int \<Rightarrow> AppState \<Rightarrow> AppState" where
  "handleRowsToDisplayChange v st = st\<lparr>rowsToDisplay := v\<rparr>"

definition handleFilterChange :: "jsstring \<Rightarrow> jsstring \<Rightarrow> AppState \<Rightarrow> AppState" where
  \<comment> \<open>\<open>setFilters(prev => ({...prev, [column]: value}))\<close>: the spread and the computed
      key define own properties, then the object is enumerated.\<close>
  "handleFilterChange column v st =
     st\<lparr>filters := objectEntries (AList.update column v (filters st))\<rparr>"

section \<open>Limiting the rows shown\<close>

definition slice0 :: "'a list \<Rightarrow> int \<Rightarrow> 'a list" where
  \<comment> \<open>\<open>xs.slice(0, e)\<close> for an integer \<open>e\<close>: a negative end counts from the end.\<close>
  "slice0 xs e =
     (let len = int (length xs);
          final = (if e < 0 then max (len + e) 0 else min e len)
      in take (nat final) xs)"

definition displayRowsCount :: "AppState \<Rightarrow> int" where
  "displayRowsCount st =
     (if rowsToDisplay st \<ge> int (length (filteredData st)) then int (length (filteredData st))
      else rowsToDisplay st)"

definition rowsToShow :: "AppState \<Rightarrow> TableRow list" where
  \<comment> \<open>The rows that \<open>renderTableRows\<close> turns into table rows; it renders nothing
      (\<open>null\<close>) when there is no filtered row.\<close>
  "rowsToShow st =
     (if length (filteredData st) = 0 then []
      else slice0 (filteredData st) (displayRowsCount st))"

definition rowsToShow_multi :: "TableRow list \<Rightarrow> TableRow list" where
  \<comment> \<open>The multi-column variant: \<open>filteredData.slice(0, 100)\<close>.\<close>
  "rowsToShow_multi fd = slice0 fd 100"

section \<open>The parser in the words of the specification\<close>

text \<open>
  The header names are the trimmed comma-separated pieces of line 0; the data lines are
  the later lines that are not empty after trimming; a row takes, for the header at
  position \<open>j\<close>, the field at position \<open>j\<close>, or the empty string when the line has
  no such field.
\<close>

definition headerNames :: "jsstring \<Rightarrow> jsstring list" where
  "headerNames csvText =
     (case split linefeed csvText of
        [] \<Rightarrow> []
      | first # rest \<Rightarrow> map trim (split comma first))"

definition dataLines :: "jsstring \<Rightarrow> jsstring list" where
  "dataLines csvText = filter (\<lambda>l. trim l \<noteq> []) (tl (split linefeed csvText))"

definition fieldAt :: "jsstring list \<Rightarrow> nat \<Rightarrow> jsstring" where
  "fieldAt values j = (if j < length values then values ! j else [])"

definition rowOfLine :: "jsstring list \<Rightarrow> jsstring \<Rightarrow> TableRow" where
  \<comment> \<open>The row that the loop body of \<open>parseCSV\<close> builds from one line.\<close>
  "rowOfLine names l = forEach_headers names 0 (parseCSVLine (trim l)) []"

definition safeFor :: "ColumnFilter \<Rightarrow> TableRow \<Rightarrow> bool" where
  \<comment> \<open>No entry with a non-blank filter value names a column that the row does not own
      and \<open>Object.prototype\<close> supplies.\<close>
  "safeFor fs row =
     list_all (\<lambda>(column, filterValue).
                 trim filterValue = [] \<or> getProp row column \<noteq> PrototypeMember) fs"

section \<open>The field splitter implements the specified scan\<close>

declare parseCSVLine_loop.simps [simp del]
declare parseCSVLine_multi_loop.simps [simp del]
declare parseCSVLine_fifth_loop.simps [simp del]
declare parseCSV_loop.simps [simp del]
declare parseCSV_multi_loop.simps [simp del]
declare parseCSV_fifth_loop.simps [simp del]

lemma scan_spec_Cons:
  "scan_spec inside buf (c # rest) =
     (if c = dquote then
        (if inside \<and> rest \<noteq> [] \<and> hd rest = dquote
         then scan_spec inside (buf @ [dquote]) (tl rest)
         else scan_spec (\<not> inside) buf rest)
      else if c = comma \<and> \<not> inside then trim buf # scan_spec inside [] rest
      else scan_spec inside (buf @ [c]) rest)"
  by (cases rest) simp_all

lemma parseCSVLine_loop_scan:
  "i \<le> length line \<Longrightarrow>
   parseCSVLine_loop line i result currentValue inQuotes =
     result @ scan_spec inQuotes currentValue (drop i line)"
proof (induction line i result currentValue inQuotes rule: parseCSVLine_loop.induct)
  case (1 line i result currentValue inQuotes)
  show ?case
  proof (cases "i < length line")
    case False
    with "1.prems" show ?thesis by (subst parseCSVLine_loop.simps) simp
  next
    case True
    have d: "drop i line = line ! i # drop (i + 1) line"
      using True by (simp add: Cons_nth_drop_Suc)
    have c: "jsIndex line i = Some (line ! i)" using True by (simp add: jsIndex_def)
    have nx: "jsIndex line (i + 1) = Some dquote \<longleftrightarrow>
                drop (i + 1) line \<noteq> [] \<and> hd (drop (i + 1) line) = dquote"
      by (auto simp: jsIndex_def hd_drop_conv_nth)
    have tl: "tl (drop (i + 1) line) = drop (i + 1 + 1) line"
      by (simp add: drop_Suc tl_drop)
    have le: "i + 1 \<le> length line" using True by simp
    consider (esc) "line ! i = dquote" "inQuotes \<and> jsIndex line (i + 1) = Some dquote"
      | (tog) "line ! i = dquote" "\<not> (inQuotes \<and> jsIndex line (i + 1) = Some dquote)"
      | (sep) "line ! i \<noteq> dquote" "line ! i = comma \<and> \<not> inQuotes"
      | (oth) "line ! i \<noteq> dquote" "\<not> (line ! i = comma \<and> \<not> inQuotes)"
      by blast
    then show ?thesis
    proof cases
      case esc
      then have le2: "i + 1 + 1 \<le> length line"
        by (auto simp: jsIndex_def split: if_splits)
      have "parseCSVLine_loop line i result currentValue inQuotes =
              parseCSVLine_loop line (i + 1 + 1) result (currentValue @ [dquote]) inQuotes"
        using True c esc by (subst parseCSVLine_loop.simps) simp
      also have "\<dots> =
              result @ scan_spec inQuotes (currentValue @ [dquote]) (drop (i + 1 + 1) line)"
        using "1.IH"(1) True c esc le2 by simp
      also have "\<dots> = result @ scan_spec inQuotes currentValue (drop i line)"
        using esc nx tl by (subst d) (simp add: scan_spec_Cons del: drop_Suc_Cons)
      finally show ?thesis .
    next
      case tog
      have "parseCSVLine_loop line i result currentValue inQuotes =
              parseCSVLine_loop line (i + 1) result currentValue (\<not> inQuotes)"
        using True c tog by (subst parseCSVLine_loop.simps) auto
      also have "\<dots> = result @ scan_spec (\<not> inQuotes) currentValue (drop (i + 1) line)"
        using "1.IH"(2) True c tog le by simp
      also have "\<dots> = result @ scan_spec inQuotes currentValue (drop i line)"
        using tog nx by (subst d) (auto simp add: scan_spec_Cons)
      finally show ?thesis .
    next
      case sep
      have "parseCSVLine_loop line i result currentValue inQuotes =
              parseCSVLine_loop line (i + 1) (result @ [trim currentValue]) [] inQuotes"
        using True c sep by (subst parseCSVLine_loop.simps) simp
      also have "\<dots> =
              (result @ [trim currentValue]) @ scan_spec inQuotes [] (drop (i + 1) line)"
        using "1.IH"(3) True c sep le by simp
      also have "\<dots> = result @ scan_spec inQuotes currentValue (drop i line)"
        using sep by (subst d) (simp add: scan_spec_Cons)
      finally show ?thesis .
    next
      case oth
      have "parseCSVLine_loop line i result currentValue inQuotes =
              parseCSVLine_loop line (i + 1) result (currentValue @ [line ! i]) inQuotes"
        using True c oth by (subst parseCSVLine_loop.simps) (auto simp add: appendChar_def)
      also have "\<dots> =
              result @ scan_spec inQuotes (currentValue @ [line ! i]) (drop (i + 1) line)"
        using "1.IH"(4) True c oth le by (auto simp add: appendChar_def)
      also have "\<dots> = result @ scan_spec inQuotes currentValue (drop i line)"
        using oth by (subst d) (auto simp add: scan_spec_Cons)
      finally show ?thesis .
    qed
  qed
qed

text \<open>
  C1. For every line, \<open>parseCSVLine\<close> returns what the specified scan returns: a
  double-quote inside a quoted field that is followed by a double-quote appends one
  double-quote and skips the next character, any other double-quote toggles the state
  and emits nothing, a comma outside quotes ends the trimmed field, every other character
  is appended, and the trimmed buffer is pushed at the end. The line \<open>"x,y",z\<close> gives
  the fields \<open>x,y\<close> and \<open>z\<close>; the line \<open>"he said ""hi"""\<close> gives the one
  field \<open>he said "hi"\<close>.
\<close>

theorem parseCSVLine_implements_scan:
  "parseCSVLine line = fieldSplit_spec line \<and>
   parseCSVLine (dquote # utf16 ''x,y'' @ dquote # utf16 '',z'') = [utf16 ''x,y'', utf16 ''z''] \<and>
   parseCSVLine (dquote # utf16 ''he said '' @ dquote # dquote # utf16 ''hi'' @
                   [dquote, dquote, dquote])
     = [utf16 ''he said '' @ dquote # utf16 ''hi'' @ [dquote]]"
proof (intro conjI)
  show "parseCSVLine line = fieldSplit_spec line"
    by (simp add: parseCSVLine_def fieldSplit_spec_def parseCSVLine_loop_scan)
  show "parseCSVLine (dquote # utf16 ''x,y'' @ dquote # utf16 '',z'')
          = [utf16 ''x,y'', utf16 ''z'']"
    by code_simp
  show "parseCSVLine (dquote # utf16 ''he said '' @ dquote # dquote # utf16 ''hi'' @
                        [dquote, dquote, dquote])
          = [utf16 ''he said '' @ dquote # utf16 ''hi'' @ [dquote]]"
    by code_simp
qed

section \<open>The rows of a parse\<close>

lemma split_not_Nil: "split sep s \<noteq> []"
  by (induction s) (auto split: list.splits)

lemma parseCSV_loop_map:
  "i \<le> length lines \<Longrightarrow>
   parseCSV_loop lines hs i result =
     Inr (result @ map (rowOfLine hs) (filter (\<lambda>l. trim l \<noteq> []) (drop i lines)))"
proof (induction lines hs i result rule: parseCSV_loop.induct)
  case (1 lines hs i result)
  show ?case
  proof (cases "i < length lines")
    case False
    with "1.prems" show ?thesis by (subst parseCSV_loop.simps) simp
  next
    case True
    have d: "drop i lines = lines ! i # drop (i + 1) lines"
      using True by (simp add: Cons_nth_drop_Suc)
    have c: "jsIndex lines i = Some (lines ! i)" using True by (simp add: jsIndex_def)
    have le: "i + 1 \<le> length lines" using True by simp
    show ?thesis
    proof (cases "trim (lines ! i) = []")
      case blank: True
      have "parseCSV_loop lines hs i result = parseCSV_loop lines hs (i + 1) result"
        using True c blank by (subst parseCSV_loop.simps) simp
      also have "\<dots> = Inr (result @ map (rowOfLine hs)
                               (filter (\<lambda>l. trim l \<noteq> []) (drop (i + 1) lines)))"
        using "1.IH"(1) [OF True c blank le] .
      finally show ?thesis using blank by (subst d) simp
    next
      case nonblank: False
      have "parseCSV_loop lines hs i result =
              parseCSV_loop lines hs (i + 1) (result @ [rowOfLine hs (lines ! i)])"
        using True c nonblank by (subst parseCSV_loop.simps) (simp add: rowOfLine_def)
      also have "\<dots> = Inr ((result @ [rowOfLine hs (lines ! i)]) @ map (rowOfLine hs)
                               (filter (\<lambda>l. trim l \<noteq> []) (drop (i + 1) lines)))"
        using "1.IH"(2) [OF True c nonblank le] by (simp add: rowOfLine_def)
      finally show ?thesis using nonblank by (subst d) simp
    qed
  qed
qed

lemma parseCSV_rows:
  "parseCSV csvText = Inr (map (rowOfLine (headerNames csvText)) (dataLines csvText))"
proof -
  obtain first rest where sp: "split linefeed csvText = first # rest"
    using split_not_Nil by (cases "split linefeed csvText") auto
  have "parseCSV csvText = parseCSV_loop (first # rest) (map trim (split comma first)) 1 []"
    by (simp add: parseCSV_def sp jsIndex_def)
  also have "\<dots> = Inr ([] @ map (rowOfLine (map trim (split comma first)))
                            (filter (\<lambda>l. trim l \<noteq> []) (drop 1 (first # rest))))"
    by (rule parseCSV_loop_map) simp
  finally show ?thesis
    by (simp add: headerNames_def dataLines_def sp)
qed

text \<open>
  C5. For every input text, \<open>parseCSV\<close> returns one row for each line after line 0 that
  is not empty after trimming, in file order, and no row for a line that is; the text
  \<open>a,b\n1,2\n\n3,4\<close> yields exactly two rows.
\<close>

theorem parseCSV_skips_blank_lines:
  "parseCSV csvText =
     Inr (map (rowOfLine (headerNames csvText))
            (filter (\<lambda>l. trim l \<noteq> []) (tl (split linefeed csvText)))) \<and>
   parseCSV (utf16 ''a,b'' @ linefeed # utf16 ''1,2'' @ linefeed # linefeed # utf16 ''3,4'') =
     Inr [[(utf16 ''a'', utf16 ''1''), (utf16 ''b'', utf16 ''2'')],
          [(utf16 ''a'', utf16 ''3''), (utf16 ''b'', utf16 ''4'')]]"
proof (intro conjI)
  show "parseCSV csvText =
          Inr (map (rowOfLine (headerNames csvText))
                 (filter (\<lambda>l. trim l \<noteq> []) (tl (split linefeed csvText))))"
    using parseCSV_rows [of csvText] by (simp add: dataLines_def)
  show "parseCSV (utf16 ''a,b'' @ linefeed # utf16 ''1,2'' @ linefeed # linefeed # utf16 ''3,4'') =
          Inr [[(utf16 ''a'', utf16 ''1''), (utf16 ''b'', utf16 ''2'')],
               [(utf16 ''a'', utf16 ''3''), (utf16 ''b'', utf16 ''4'')]]"
    by code_simp
qed

section \<open>The keys and values of a row\<close>

text \<open>
  A row built by \<open>parseCSV\<close> owns every header name except \<open>__proto__\<close>, and maps a
  header name other than \<open>__proto__\<close> to the field at the last position that bears the
  name, the empty string when the line has no field there.
\<close>

lemma orEmpty_jsIndex: "orEmpty (jsIndex vs j) = fieldAt vs j"
  by (simp add: orEmpty_def jsIndex_def fieldAt_def)

lemma map_of_assignProp:
  "map_of (assignProp row key v) =
     (if key = protoKey \<and> map_of row key = None then map_of row else (map_of row)(key \<mapsto> v))"
  by (auto simp add: assignProp_def update_conv')

lemma keys_assignProp:
  "fst ` set (assignProp row key v) =
     (if key = protoKey \<and> map_of row key = None then fst ` set row
      else insert key (fst ` set row))"
  by (auto simp add: assignProp_def dom_update)

lemma forEach_headers_proto:
  "map_of row protoKey = None \<Longrightarrow> map_of (forEach_headers hs idx vs row) protoKey = None"
  by (induction hs arbitrary: idx row) (simp_all add: map_of_assignProp)

lemma forEach_headers_keys:
  "map_of row protoKey = None \<Longrightarrow>
   fst ` set (forEach_headers hs idx vs row) = fst ` set row \<union> (set hs - {protoKey})"
proof (induction hs arbitrary: idx row)
  case Nil
  then show ?case by simp
next
  case (Cons h hs)
  have "map_of (assignProp row h (orEmpty (jsIndex vs idx))) protoKey = None"
    using Cons.prems by (simp add: map_of_assignProp)
  from Cons.IH [OF this] show ?case
    using Cons.prems by (auto simp: keys_assignProp)
qed

lemma forEach_headers_other:
  "k \<notin> set hs \<Longrightarrow> map_of (forEach_headers hs idx vs row) k = map_of row k"
  by (induction hs arbitrary: idx row) (auto simp: map_of_assignProp)

lemma forEach_headers_last:
  "j < length hs \<Longrightarrow> hs ! j = k \<Longrightarrow> k \<notin> set (drop (Suc j) hs) \<Longrightarrow> k \<noteq> protoKey \<Longrightarrow>
   map_of (forEach_headers hs idx vs row) k = Some (fieldAt vs (idx + j))"
proof (induction hs arbitrary: idx row j)
  case Nil
  then show ?case by simp
next
  case (Cons h hs)
  show ?case
  proof (cases j)
    case 0
    with Cons.prems have "h = k" "k \<notin> set hs" by simp_all
    then show ?thesis
      using Cons.prems(4) 0
      by (simp add: forEach_headers_other map_of_assignProp orEmpty_jsIndex)
  next
    case (Suc j')
    with Cons.prems have "j' < length hs" "hs ! j' = k" "k \<notin> set (drop (Suc j') hs)"
      by simp_all
    from Cons.IH [OF this Cons.prems(4)] show ?thesis
      using Suc by simp
  qed
qed

lemma rowOfLine_keys: "fst ` set (rowOfLine names l) = set names - {protoKey}"
  by (simp add: rowOfLine_def forEach_headers_keys)

lemma rowOfLine_value:
  "j < length names \<Longrightarrow> names ! j = k \<Longrightarrow> k \<notin> set (drop (Suc j) names) \<Longrightarrow> k \<noteq> protoKey \<Longrightarrow>
   map_of (rowOfLine names l) k = Some (fieldAt (parseCSVLine (trim l)) j)"
  using forEach_headers_last [of j names k 0] by (simp add: rowOfLine_def)

lemma fieldAt_surplus: "j < n \<Longrightarrow> fieldAt (take n values) j = fieldAt values j"
  by (simp add: fieldAt_def)

text \<open>
  C4. Every produced row is to have exactly the header names as its keys, short lines
  padded with the empty string and surplus fields dropped. The text \<open>a,b,c\n1,2\<close> does
  yield the row \<open>{a:"1", b:"2", c:""}\<close>, but on the text \<open>a,__proto__\n1,2\<close> the
  header names are \<open>a\<close> and \<open>__proto__\<close> and the one row has the key \<open>a\<close> alone:
  the assignment \<open>row['__proto__'] = '2'\<close> creates no property.
\<close>

theorem parseCSV_proto_header_lost:
  "parseCSV (utf16 ''a,b,c'' @ linefeed # utf16 ''1,2'') =
     Inr [[(utf16 ''a'', utf16 ''1''), (utf16 ''b'', utf16 ''2''), (utf16 ''c'', [])]] \<and>
   headerNames (utf16 ''a,__proto__'' @ linefeed # utf16 ''1,2'') =
     [utf16 ''a'', utf16 ''__proto__''] \<and>
   parseCSV (utf16 ''a,__proto__'' @ linefeed # utf16 ''1,2'') =
     Inr [[(utf16 ''a'', utf16 ''1'')]]"
proof (intro conjI)
  show "parseCSV (utf16 ''a,b,c'' @ linefeed # utf16 ''1,2'') =
          Inr [[(utf16 ''a'', utf16 ''1''), (utf16 ''b'', utf16 ''2''), (utf16 ''c'', [])]]"
    by code_simp
  show "headerNames (utf16 ''a,__proto__'' @ linefeed # utf16 ''1,2'') =
          [utf16 ''a'', utf16 ''__proto__'']"
    by code_simp
  show "parseCSV (utf16 ''a,__proto__'' @ linefeed # utf16 ''1,2'') =
          Inr [[(utf16 ''a'', utf16 ''1'')]]"
    by code_simp
qed

text \<open>
  C9. With the same header text at several positions, a row is to map that name to the
  field at the last such position. The text \<open>a,b,a\n1,2,3\<close> does yield
  \<open>{a:"3", b:"2"}\<close>, but on the text \<open>__proto__,__proto__\n1,2\<close> the one row has no
  property at all, and reading \<open>__proto__\<close> from it finds the member of
  \<open>Object.prototype\<close>, not the field \<open>2\<close>.
\<close>

theorem parseCSV_proto_duplicate_unmapped:
  "parseCSV (utf16 ''a,b,a'' @ linefeed # utf16 ''1,2,3'') =
     Inr [[(utf16 ''a'', utf16 ''3''), (utf16 ''b'', utf16 ''2'')]] \<and>
   parseCSV (utf16 ''__proto__,__proto__'' @ linefeed # utf16 ''1,2'') = Inr [[]] \<and>
   getProp [] (utf16 ''__proto__'') = PrototypeMember"
proof (intro conjI)
  show "parseCSV (utf16 ''a,b,a'' @ linefeed # utf16 ''1,2,3'') =
          Inr [[(utf16 ''a'', utf16 ''3''), (utf16 ''b'', utf16 ''2'')]]"
    by code_simp
  show "parseCSV (utf16 ''__proto__,__proto__'' @ linefeed # utf16 ''1,2'') = Inr [[]]"
    by code_simp
  show "getProp [] (utf16 ''__proto__'') = PrototypeMember"
    by code_simp
qed

section \<open>The filter pass\<close>

lemma entryTest_spec:
  "trim (snd entry) = [] \<or> getProp row (fst entry) \<noteq> PrototypeMember \<Longrightarrow>
   entryTest lc row entry =
     Inr (trim (snd entry) = [] \<or>
          includes_js (cellLowered_spec lc row (fst entry)) (trim (lc (snd entry))))"
  by (cases entry)
     (auto simp: entryTest_def toLowerCase_call_def getProp_def cellLowered_spec_def orEmpty_def
           split: option.splits if_splits)

lemma every_js_spec:
  "\<forall>x \<in> set xs. test x = Inr (P x) \<Longrightarrow> every_js test xs = Inr (list_all P xs)"
  by (induction xs) auto

lemma filter_js_spec:
  "\<forall>x \<in> set xs. test x = Inr (P x) \<Longrightarrow> filter_js test xs = Inr (filter P xs)"
  by (induction xs) auto

lemma every_entryTest_spec:
  assumes "safeFor fs row"
  shows "every_js (entryTest lc row) fs = Inr (rowMatches_spec lc fs row)"
proof -
  have "\<forall>e \<in> set fs. entryTest lc row e =
          Inr ((\<lambda>(column, filterValue). trim filterValue = [] \<or>
                 includes_js (cellLowered_spec lc row column) (trim (lc filterValue))) e)"
    using assms entryTest_spec [of _ row lc]
    by (auto simp: safeFor_def list_all_iff split: prod.splits)
  from every_js_spec [OF this] show ?thesis
    by (simp add: rowMatches_spec_def)
qed

lemma rowMatches_blank:
  "list_all (\<lambda>val. trim val = []) (map snd fs) \<Longrightarrow> rowMatches_spec lc fs row"
  by (auto simp: rowMatches_spec_def list_all_iff)

lemma applyFilters_spec:
  assumes "list_all (safeFor fs) rows"
  shows "applyFilters lc fs rows = Inr (filterRows_spec lc fs rows)"
proof (cases "list_all (\<lambda>val. trim val = []) (map snd fs)")
  case True
  then have "filter (rowMatches_spec lc fs) rows = rows"
    by (simp add: rowMatches_blank)
  with True show ?thesis by (simp add: applyFilters_def filterRows_spec_def)
next
  case False
  have "\<forall>row \<in> set rows. every_js (entryTest lc row) fs = Inr (rowMatches_spec lc fs row)"
    using assms every_entryTest_spec by (auto simp: list_all_iff)
  from filter_js_spec [OF this] False show ?thesis
    by (simp add: applyFilters_def filterRows_spec_def)
qed

lemma filter_js_subset:
  "filter_js test xs = Inr ys \<Longrightarrow> set ys \<subseteq> {x \<in> set xs. test x = Inr True}"
  by (induction xs arbitrary: ys) (auto split: sum.splits if_splits)

lemma filter_js_all_true:
  "\<forall>x \<in> set xs. test x = Inr True \<Longrightarrow> filter_js test xs = Inr xs"
  by (induction xs) auto

lemma filter_js_idem:
  "filter_js test xs = Inr ys \<Longrightarrow> filter_js test ys = Inr ys"
  using filter_js_subset [of test xs ys] by (intro filter_js_all_true) auto

lemma applyFilters_idem:
  "(case applyFilters lc fs rows of Inl e \<Rightarrow> Inl e | Inr rows' \<Rightarrow> applyFilters lc fs rows')
     = applyFilters lc fs rows"
  by (auto simp: applyFilters_def filter_js_idem split: sum.splits)

lemma includes_js_sublist: "includes_js s t \<longleftrightarrow> sublist t s"
  by (induction s) (auto simp: sublist_Cons_right)

lemma filter_js_sub: "filter_js test xs = Inr ys \<Longrightarrow> subseq ys xs"
  by (induction xs arbitrary: ys) (auto split: sum.splits if_splits)

lemma entryTest_returns:
  "entryTest lc row entry = Inr b \<Longrightarrow>
   b = (trim (snd entry) = [] \<or>
        includes_js (cellLowered_spec lc row (fst entry)) (trim (lc (snd entry))))"
  by (cases entry)
     (auto simp: entryTest_def toLowerCase_call_def getProp_def cellLowered_spec_def orEmpty_def
           split: option.splits if_splits)

lemma every_entryTest_returns:
  "every_js (entryTest lc row) fs = Inr b \<Longrightarrow> b = rowMatches_spec lc fs row"
proof (induction fs)
  case Nil
  then show ?case by (simp add: rowMatches_spec_def)
next
  case (Cons e fs)
  from Cons.prems obtain b1 where b1: "entryTest lc row e = Inr b1"
    by (auto split: sum.splits)
  note spec = entryTest_returns [OF b1]
  show ?case
  proof (cases b1)
    case True
    with Cons.prems b1 have "every_js (entryTest lc row) fs = Inr b" by simp
    then have "b = rowMatches_spec lc fs row" by (rule Cons.IH)
    with True spec show ?thesis
      by (cases e) (simp add: rowMatches_spec_def)
  next
    case False
    with Cons.prems b1 have "\<not> b" by simp
    with False spec show ?thesis
      by (cases e) (simp add: rowMatches_spec_def)
  qed
qed

lemma filter_js_returns:
  "filter_js test xs = Inr ys \<Longrightarrow> (\<And>x b. test x = Inr b \<Longrightarrow> b = P x) \<Longrightarrow>
   ys = filter P xs"
proof (induction xs arbitrary: ys)
  case Nil
  then show ?case by simp
next
  case (Cons x xs)
  from Cons.prems(1) obtain b zs where b: "test x = Inr b" and zs: "filter_js test xs = Inr zs"
    and ys: "ys = (if b then x # zs else zs)"
    by (auto split: sum.splits)
  have "zs = filter P xs" using zs Cons.prems(2) by (rule Cons.IH)
  moreover have "b = P x" using b by (rule Cons.prems(2))
  ultimately show ?case using ys by simp
qed

lemma applyFilters_returns_spec:
  assumes "applyFilters lc fs rows = Inr filtered"
  shows "filtered = filterRows_spec lc fs rows"
proof (cases "list_all (\<lambda>val. trim val = []) (map snd fs)")
  case True
  then have "filter (rowMatches_spec lc fs) rows = rows"
    by (simp add: rowMatches_blank)
  with True assms show ?thesis by (simp add: applyFilters_def filterRows_spec_def)
next
  case False
  with assms have "filter_js (\<lambda>row. every_js (entryTest lc row) fs) rows = Inr filtered"
    by (simp add: applyFilters_def)
  then have "filtered = filter (rowMatches_spec lc fs) rows"
    by (rule filter_js_returns) (rule every_entryTest_returns)
  then show ?thesis by (simp add: filterRows_spec_def)
qed


text \<open>
  C6. For every row sequence and every filter map whose values are all empty after
  trimming, \<open>applyFilters\<close> returns the rows unchanged and in the same order.
\<close>

theorem applyFilters_empty_filters_identity:
  "list_all (\<lambda>(column, filterValue). trim filterValue = []) fs \<Longrightarrow>
   applyFilters lc fs rows = Inr rows"
  by (simp add: applyFilters_def list_all_iff case_prod_unfold)

theorem applyFilters_empty_filters_identity_witness:
  "list_all (\<lambda>(column, filterValue). trim filterValue = [])
     [(utf16 ''a'', []), (utf16 ''constructor'', utf16 ''  '')] \<and>
   applyFilters toLowerCase_basicLatin [(utf16 ''a'', []), (utf16 ''constructor'', utf16 ''  '')]
     [[(utf16 ''a'', utf16 ''2'')], [(utf16 ''a'', utf16 ''1'')]]
   = Inr [[(utf16 ''a'', utf16 ''2'')], [(utf16 ''a'', utf16 ''1'')]]"
proof -
  have blank: "list_all (\<lambda>(column, filterValue). trim filterValue = [])
                 [(utf16 ''a'', []), (utf16 ''constructor'', utf16 ''  '')]"
    by code_simp
  show ?thesis
    using blank applyFilters_empty_filters_identity [OF blank] by simp
qed

text \<open>
  C7. Filtering is idempotent: for every row sequence and every filter map, filtering the
  result of a filter pass again with the same filter map gives the result of the first
  pass (and a pass that raises raises in both).
\<close>

theorem applyFilters_idempotent:
  "(case applyFilters lc fs rows of
      Inl e \<Rightarrow> Inl e
    | Inr filtered \<Rightarrow> applyFilters lc fs filtered)
   = applyFilters lc fs rows"
  by (rule applyFilters_idem)


section \<open>The filter maps that the view builds\<close>

text \<open>
  The loader takes the keys of the filter map from \<open>Object.keys\<close> of the first parsed
  row and \<open>handleFilterChange\<close> is called with a header; every row of a parse owns the
  same keys. So the filter maps that the view itself passes to \<open>applyFilters\<close> name
  own keys of every row; a filter map of the declared type \<open>ColumnFilter\<close> need not.
\<close>

lemma set_objectEntries: "set (objectEntries row) = set row"
  by (auto simp: objectEntries_def)

lemma set_objectKeys: "set (objectKeys row) = fst ` set row"
  by (simp add: objectKeys_def set_objectEntries)

lemma safeFor_own_keys: "fst ` set fs \<subseteq> fst ` set row \<Longrightarrow> safeFor fs row"
proof -
  assume sub: "fst ` set fs \<subseteq> fst ` set row"
  have "getProp row c \<noteq> PrototypeMember" if "(c, fv) \<in> set fs" for c fv
  proof -
    from that sub have "c \<in> fst ` set row" by force
    then obtain v where "map_of row c = Some v"
      by (metis domD dom_map_of_conv_image_fst)
    then show ?thesis by (simp add: getProp_def)
  qed
  then show ?thesis by (auto simp: safeFor_def list_all_iff)
qed

lemma keys_foldl_assignProp:
  "fst ` set (foldl (\<lambda>obj header. assignProp obj header []) obj keys)
     \<subseteq> fst ` set obj \<union> set keys"
proof (induction keys arbitrary: obj)
  case Nil
  then show ?case by simp
next
  case (Cons k keys)
  have "fst ` set (assignProp obj k []) \<subseteq> insert k (fst ` set obj)"
    by (auto simp: keys_assignProp split: if_splits)
  with Cons.IH [of "assignProp obj k []"] show ?case by auto
qed

lemma initialFilters_keys: "fst ` set (initialFilters keys) \<subseteq> set keys"
  using keys_foldl_assignProp [of "[]" keys] by (simp add: initialFilters_def set_objectEntries)

lemma parsed_rows_keys:
  "parseCSV csvText = Inr rows \<Longrightarrow> row \<in> set rows \<Longrightarrow>
   fst ` set row = set (headerNames csvText) - {protoKey}"
proof -
  assume p: "parseCSV csvText = Inr rows" and r: "row \<in> set rows"
  from p parseCSV_rows [of csvText]
  have "rows = map (rowOfLine (headerNames csvText)) (dataLines csvText)" by simp
  with r obtain l where "row = rowOfLine (headerNames csvText) l" by auto
  then show ?thesis by (simp only: rowOfLine_keys)
qed

lemma loaded_filters_safe:
  assumes "parseCSV csvText = Inr rows" "rows \<noteq> []"
  shows "data (loadCSVData csvText st) = rows \<and>
         list_all (safeFor (filters (loadCSVData csvText st))) rows"
proof -
  obtain first rest where rows: "rows = first # rest"
    using assms(2) by (cases rows) auto
  have st': "loadCSVData csvText st =
               st\<lparr>headers := objectKeys first, data := rows,
                  filters := initialFilters (objectKeys first)\<rparr>"
    using assms(1) rows by (simp add: loadCSVData_def jsIndex_def)
  have "safeFor (initialFilters (objectKeys first)) row" if "row \<in> set rows" for row
  proof -
    have "fst ` set row = fst ` set first"
      using parsed_rows_keys [OF assms(1)] that rows by simp
    then show ?thesis
      using initialFilters_keys [of "objectKeys first"]
      by (intro safeFor_own_keys) (simp add: set_objectKeys)
  qed
  then show ?thesis by (simp add: st' list_all_iff)
qed

lemma handleFilterChange_safe:
  assumes "fst ` set (filters st) \<subseteq> fst ` set row" "column \<in> fst ` set row"
  shows "fst ` set (filters (handleFilterChange column v st)) \<subseteq> fst ` set row"
  using assms by (auto simp: handleFilterChange_def set_objectEntries dom_update)

section \<open>The row limit\<close>

lemma slice0_nonneg: "0 \<le> e \<Longrightarrow> slice0 xs e = take (nat (min e (int (length xs)))) xs"
  by (simp add: slice0_def Let_def)

text \<open>
  C8. For every row sequence and every count \<open>n\<close>, the rows shown are exactly the first
  \<open>min(n, len(rows))\<close> rows of the filtered sequence (in the multi-column variant
  \<open>n\<close> is 100), and choosing the count changes neither the filtered sequence nor what
  the filter pass computes.
\<close>

theorem rowsToShow_prefix:
  "0 \<le> rowsToDisplay st \<Longrightarrow>
   rowsToShow st =
     take (nat (min (rowsToDisplay st) (int (length (filteredData st))))) (filteredData st) \<and>
   rowsToShow_multi fd = take (min 100 (length fd)) fd \<and>
   filteredData (handleRowsToDisplayChange v st) = filteredData st \<and>
   filteredData (filterEffect lc (handleRowsToDisplayChange v st)) =
     filteredData (filterEffect lc st)"
  by (auto simp: rowsToShow_def displayRowsCount_def slice0_def Let_def rowsToShow_multi_def
        handleRowsToDisplayChange_def filterEffect_def min_def split: sum.splits)

theorem rowsToShow_prefix_witness:
  "(0::int) \<le> 2 \<and>
   rowsToShow \<lparr>data = [], filteredData = [[(utf16 ''a'', utf16 ''1'')],
                 [(utf16 ''a'', utf16 ''2'')], [(utf16 ''a'', utf16 ''3'')]],
               filters = [], headers = [utf16 ''a''], rowsToDisplay = 2\<rparr>
   = [[(utf16 ''a'', utf16 ''1'')], [(utf16 ''a'', utf16 ''2'')]]"
  using rowsToShow_prefix
    [of "\<lparr>data = [], filteredData = [[(utf16 ''a'', utf16 ''1'')],
                 [(utf16 ''a'', utf16 ''2'')], [(utf16 ''a'', utf16 ''3'')]],
               filters = [], headers = [utf16 ''a''], rowsToDisplay = 2\<rparr>"]
  by simp

section \<open>The three copies of the parser agree\<close>

lemma parseCSVLine_multi_loop_eq:
  "parseCSVLine_multi_loop line i result currentValue inQuotes =
   parseCSVLine_loop line i result currentValue inQuotes"
proof (induction line i result currentValue inQuotes rule: parseCSVLine_loop.induct)
  case (1 line i result currentValue inQuotes)
  show ?case
    using "1.IH"
    by (subst parseCSVLine_multi_loop.simps, subst parseCSVLine_loop.simps) auto
qed

lemma parseCSVLine_fifth_loop_eq:
  "parseCSVLine_fifth_loop line i result currentValue inQuotes =
   parseCSVLine_loop line i result currentValue inQuotes"
proof (induction line i result currentValue inQuotes rule: parseCSVLine_loop.induct)
  case (1 line i result currentValue inQuotes)
  show ?case
    using "1.IH"
    by (subst parseCSVLine_fifth_loop.simps, subst parseCSVLine_loop.simps) auto
qed

lemma parseCSVLine_multi_eq: "parseCSVLine_multi line = parseCSVLine line"
  by (simp add: parseCSVLine_multi_def parseCSVLine_def parseCSVLine_multi_loop_eq)

lemma parseCSVLine_fifth_eq: "parseCSVLine_fifth line = parseCSVLine line"
  by (simp add: parseCSVLine_fifth_def parseCSVLine_def parseCSVLine_fifth_loop_eq)

lemma forEach_headers_multi_eq:
  "forEach_headers_multi hs idx vs row = forEach_headers hs idx vs row"
  by (induction hs arbitrary: idx row) simp_all

lemma forEach_headers_fifth_eq:
  "forEach_headers_fifth hs idx vs row = forEach_headers hs idx vs row"
  by (induction hs arbitrary: idx row) simp_all

lemma parseCSV_multi_loop_eq:
  "parseCSV_multi_loop lines hs i result = parseCSV_loop lines hs i result"
proof (induction lines hs i result rule: parseCSV_loop.induct)
  case (1 lines hs i result)
  show ?case
    using "1.IH"
    by (subst parseCSV_multi_loop.simps, subst parseCSV_loop.simps)
       (auto simp add: parseCSVLine_multi_eq forEach_headers_multi_eq split: option.splits)
qed

lemma parseCSV_fifth_loop_eq:
  "parseCSV_fifth_loop lines hs i result = parseCSV_loop lines hs i result"
proof (induction lines hs i result rule: parseCSV_loop.induct)
  case (1 lines hs i result)
  show ?case
    using "1.IH"
    by (subst parseCSV_fifth_loop.simps, subst parseCSV_loop.simps)
       (auto simp add: parseCSVLine_fifth_eq forEach_headers_fifth_eq split: option.splits)
qed

text \<open>
  C10. The copies of \<open>parseCSVLine\<close> and \<open>parseCSV\<close> in the debounced variant, the
  multi-column variant and the fifth-column variant return the same result on every
  input string.
\<close>

theorem variants_equal:
  "parseCSVLine_multi line = parseCSVLine line \<and>
   parseCSVLine_fifth line = parseCSVLine line \<and>
   parseCSV_multi csvText = parseCSV csvText \<and>
   parseCSV_fifth csvText = parseCSV csvText"
  by (simp add: parseCSVLine_multi_eq parseCSVLine_fifth_eq parseCSV_multi_def
        parseCSV_fifth_def parseCSV_def parseCSV_multi_loop_eq parseCSV_fifth_loop_eq
        Let_def split: option.splits)

end
